theory Spec2Isabelle
  imports Complex_Main "HOL-Library.AList" "HOL-Library.Multiset"
begin

section \<open>Python string predicates used by the tagger\<close>

text \<open>
  The tagger in \<^verbatim>\<open>NERD/NER.py\<close> calls the built-in string methods
  \<^verbatim>\<open>isdigit\<close>, \<^verbatim>\<open>isalpha\<close>, \<^verbatim>\<open>isupper\<close>, \<^verbatim>\<open>islower\<close>, \<^verbatim>\<open>istitle\<close> and
  \<^verbatim>\<open>lower\<close>. They are modelled on ASCII text, where a character is cased exactly
  when it is a letter. Each whole-string predicate is false on the empty string, as
  in Python.
\<close>

definition ascii_uppers :: string where
  "ascii_uppers = ''ABCDEFGHIJKLMNOPQRSTUVWXYZ''"

definition ascii_lowers :: string where
  "ascii_lowers = ''abcdefghijklmnopqrstuvwxyz''"

definition ascii_digits :: string where
  "ascii_digits = ''0123456789''"

definition chr_isupper :: "char \<Rightarrow> bool" where
  "chr_isupper c = (c \<in> set ascii_uppers)"

definition chr_islower :: "char \<Rightarrow> bool" where
  "chr_islower c = (c \<in> set ascii_lowers)"

definition chr_isdigit :: "char \<Rightarrow> bool" where
  "chr_isdigit c = (c \<in> set ascii_digits)"

definition chr_isalpha :: "char \<Rightarrow> bool" where
  "chr_isalpha c = (chr_isupper c \<or> chr_islower c)"

definition chr_lower :: "char \<Rightarrow> char" where
  "chr_lower c = (case map_of (zip ascii_uppers ascii_lowers) c of
                    None \<Rightarrow> c | Some l \<Rightarrow> l)"

definition str_isdigit :: "string \<Rightarrow> bool" where
  "str_isdigit s = (s \<noteq> [] \<and> list_all chr_isdigit s)"

definition str_isalpha :: "string \<Rightarrow> bool" where
  "str_isalpha s = (s \<noteq> [] \<and> list_all chr_isalpha s)"

text \<open>\<^verbatim>\<open>isupper\<close>: at least one cased character, and no lowercase one.\<close>

definition str_isupper :: "string \<Rightarrow> bool" where
  "str_isupper s = (list_ex chr_isupper s \<and> \<not> list_ex chr_islower s)"

definition str_islower :: "string \<Rightarrow> bool" where
  "str_islower s = (list_ex chr_islower s \<and> \<not> list_ex chr_isupper s)"

definition str_lower :: "string \<Rightarrow> string" where
  "str_lower s = map chr_lower s"

text \<open>
  \<^verbatim>\<open>istitle\<close> scans left to right with two flags: whether the previous character
  was cased, and whether any cased character has been seen. An uppercase letter must
  not follow a cased character, a lowercase letter must follow one.
\<close>

fun istitle_scan :: "bool \<Rightarrow> bool \<Rightarrow> string \<Rightarrow> bool" where
  "istitle_scan previous_is_cased cased [] = cased"
| "istitle_scan previous_is_cased cased (c # cs) =
     (if chr_isupper c then
        (if previous_is_cased then False else istitle_scan True True cs)
      else if chr_islower c then
        (if \<not> previous_is_cased then False else istitle_scan True True cs)
      else istitle_scan False cased cs)"

definition str_istitle :: "string \<Rightarrow> bool" where
  "str_istitle s = istitle_scan False False s"

text \<open>The slice \<^verbatim>\<open>word[-n:]\<close> for a positive \<open>n\<close>: the last \<open>n\<close> characters, or the
  whole string when it is shorter.\<close>

definition last_chars :: "nat \<Rightarrow> string \<Rightarrow> string" where
  "last_chars n s = drop (length s - n) s"

section \<open>The alphanumeric classifier\<close>

text \<open>
  \<^verbatim>\<open>BaseNerTagger._is_alpha_and_numeric\<close>. The third branch looks only at the first
  and the last character (\<^verbatim>\<open>string[0]\<close>, \<^verbatim>\<open>string[-1]\<close>): a digit adds one to
  the counter, a letter subtracts one, anything else leaves it alone.
\<close>

fun count_ends :: "int \<Rightarrow> string \<Rightarrow> int" where
  "count_ends alphanum [] = alphanum"
| "count_ends alphanum (tok # toks) =
     (if chr_isdigit tok then count_ends (alphanum + 1) toks
      else if chr_isalpha tok then count_ends (alphanum - 1) toks
      else count_ends alphanum toks)"

definition is_alpha_and_numeric :: "string \<Rightarrow> string" where
  "is_alpha_and_numeric string =
     (if str_isdigit string then ''DIGIT''
      else if str_isalpha string then
        (if str_isupper string then ''ALPHA_UPPER''
         else if str_islower string then ''ALPHA_LOWER''
         else ''ALPHA'')
      else if length string > 0 then
        (let toks = [hd string, last string] in
         if count_ends 0 toks = 0 then ''ALPHA_NUM'' else '''')
      else ''EMPTY'')"

section \<open>The feature extractor\<close>

text \<open>
  A token of a sentence is a Python tuple: \<^verbatim>\<open>(token, pos_tag)\<close> before labelling,
  \<^verbatim>\<open>(token, pos_tag, tag)\<close> after. Reading component 2 of a pair raises
  \<^verbatim>\<open>IndexError\<close>.
\<close>

datatype item = Tok2 string string | Tok3 string string string

fun item_word :: "item \<Rightarrow> string" where
  "item_word (Tok2 w p) = w"
| "item_word (Tok3 w p l) = w"

fun item_postag :: "item \<Rightarrow> string" where
  "item_postag (Tok2 w p) = p"
| "item_postag (Tok3 w p l) = p"

fun item_label :: "item \<Rightarrow> string option" where
  "item_label (Tok2 w p) = None"
| "item_label (Tok3 w p l) = Some l"

fun item_len :: "item \<Rightarrow> nat" where
  "item_len (Tok2 w p) = 2"
| "item_len (Tok3 w p l) = 3"

datatype error = IndexError | KeyError | AttributeError | ValueError

text \<open>
  A feature value is the float \<open>1.0\<close> of the bias (the only number, kept as
  \<open>FNum 1\<close>), a string or a boolean. The feature dictionary keeps insertion order;
  \<^verbatim>\<open>features.update\<close> and \<^verbatim>\<open>features[k] = v\<close> overwrite an existing key in place
  and append a new one, which is \<^const>\<open>AList.update\<close>.
\<close>

datatype fval = FNum int | FStr string | FBool bool

type_synonym features = "(string \<times> fval) list"

definition dict_update :: "features \<Rightarrow> features \<Rightarrow> features" where
  "dict_update d kvs = foldl (\<lambda>acc kv. AList.update (fst kv) (snd kv) acc) d kvs"

text \<open>The seven features of a neighbour, under the prefix of its offset
  (\<open>-1:\<close>, \<open>-2:\<close>, \<open>+1:\<close>, \<open>+2:\<close>).\<close>

definition neighbour_features :: "string \<Rightarrow> item \<Rightarrow> features" where
  "neighbour_features pre it =
     (let word = item_word it; postag = item_postag it in
      [(pre @ ''word.lower()'', FStr (str_lower word)),
       (pre @ ''word[-3:]'', FStr (last_chars 3 word)),
       (pre @ ''word[-2:]'', FStr (last_chars 2 word)),
       (pre @ ''word.istitle()'', FBool (str_istitle word)),
       (pre @ ''word.isupper()'', FBool (str_isupper word)),
       (pre @ ''postag'', FStr postag),
       (pre @ ''word.is_alphanum'', FStr (is_alpha_and_numeric word))])"

text \<open>
  \<^verbatim>\<open>BaseNerTagger._word2features\<close>. The index is a natural number, as
  \<^verbatim>\<open>_sent2features\<close> passes it (\<^verbatim>\<open>range(len(sent))\<close>); beyond the end of the
  sentence \<^verbatim>\<open>sent[i]\<close> raises \<^verbatim>\<open>IndexError\<close>. The comparisons with
  \<^verbatim>\<open>len(sent) - 1\<close> and \<^verbatim>\<open>len(sent) - 2\<close> are on integers.
\<close>

definition word2features :: "item list \<Rightarrow> nat \<Rightarrow> error + features" where
  "word2features sent i =
     (if \<not> i < length sent then Inl IndexError
      else
        let word = item_word (sent ! i);
            postag = item_postag (sent ! i);
            f0 = [(''bias'', FNum 1),
                  (''word.lower()'', FStr (str_lower word)),
                  (''word[-3:]'', FStr (last_chars 3 word)),
                  (''word[-2:]'', FStr (last_chars 2 word)),
                  (''word.isupper()'', FBool (str_isupper word)),
                  (''word.istitle()'', FBool (str_istitle word)),
                  (''word.isdigit()'', FBool (str_isdigit word)),
                  (''word.is_alphanum'', FStr (is_alpha_and_numeric word)),
                  (''postag'', FStr postag)];
            f1 = (if i > 0 then dict_update f0 (neighbour_features ''-1:'' (sent ! (i - 1)))
                  else AList.update ''BOS'' (FBool True) f0);
            f2 = (if i > 1 then dict_update f1 (neighbour_features ''-2:'' (sent ! (i - 2)))
                  else f1);
            f3 = (if int i < int (length sent) - 1
                  then dict_update f2 (neighbour_features ''+1:'' (sent ! (i + 1)))
                  else AList.update ''EOS'' (FBool True) f2);
            f4 = (if int i < int (length sent) - 2
                  then dict_update f3 (neighbour_features ''+2:'' (sent ! (i + 2)))
                  else f3)
        in Inr f4)"

text \<open>\<^verbatim>\<open>_sent2features\<close>: the list comprehension over \<^verbatim>\<open>range(len(sent))\<close>; the first
  error, if any, ends it.\<close>

fun collect :: "(error + 'a) list \<Rightarrow> error + 'a list" where
  "collect [] = Inr []"
| "collect (Inl e # rs) = Inl e"
| "collect (Inr x # rs) = (case collect rs of Inl e \<Rightarrow> Inl e | Inr xs \<Rightarrow> Inr (x # xs))"

definition sent2features :: "item list \<Rightarrow> error + features list" where
  "sent2features sent = collect (map (word2features sent) [0 ..< length sent])"

section \<open>The entity extraction pass\<close>

text \<open>
  \<^verbatim>\<open>NerTagger.find_entities_in_text\<close>. Tokenising, part-of-speech tagging and the
  model's prediction are outside the program; the scan starts from the tokens and
  the predicted tags, zipped. An extracted entity is the dictionary
  \<^verbatim>\<open>{'value': ..., 'entity': ...}\<close>; the tag vocabulary \<^verbatim>\<open>utmapping\<close> is a dictionary
  from tag identifier to display name, and a missing key raises \<^verbatim>\<open>KeyError\<close>.
\<close>

record entity =
  e_value :: string
  e_entity :: string

type_synonym utmap = "string \<rightharpoonup> string"

text \<open>The dictionary comprehension \<^verbatim>\<open>{t[0]: t[1] for t in unique_tags}\<close>: a later pair
  overrides an earlier one with the same identifier.\<close>

definition utmapping_of :: "(string \<times> string) list \<Rightarrow> utmap" where
  "utmapping_of unique_tags = foldl (\<lambda>m t. m(fst t \<mapsto> snd t)) Map.empty unique_tags"

text \<open>\<^verbatim>\<open>' '.join(ent_toks)\<close>\<close>

fun join_space :: "string list \<Rightarrow> string" where
  "join_space [] = []"
| "join_space [t] = t"
| "join_space (t # ts) = t @ '' '' @ join_space ts"

definition startswith :: "string \<Rightarrow> string \<Rightarrow> bool" where
  "startswith pre s = (take (length pre) s = pre)"

text \<open>Appending the entity of the pending buffer:
  \<^verbatim>\<open>entities.append({'value': ' '.join(ent_toks), 'entity': self.utmapping[curr_ent]})\<close>.\<close>

definition append_entity ::
  "utmap \<Rightarrow> string \<Rightarrow> string \<Rightarrow> entity list \<Rightarrow> error + entity list" where
  "append_entity utmapping v curr_ent entities =
     (case utmapping curr_ent of
        None \<Rightarrow> Inl KeyError
      | Some name \<Rightarrow> Inr (entities @ [\<lparr>e_value = v, e_entity = name\<rparr>]))"

text \<open>
  The loop over the zipped list, with the three loop variables \<^verbatim>\<open>curr_ent\<close>,
  \<^verbatim>\<open>ent_toks\<close> and \<^verbatim>\<open>entities\<close>, and the flush after the loop. A tag that starts with
  none of \<open>B-\<close>, \<open>I-\<close>, \<open>L-\<close>, \<open>U-\<close>, \<open>O\<close> changes nothing.
\<close>

fun scan_entities ::
  "utmap \<Rightarrow> string \<Rightarrow> string list \<Rightarrow> entity list \<Rightarrow> (string \<times> string) list
     \<Rightarrow> error + entity list" where
  "scan_entities utmapping curr_ent ent_toks entities [] =
     (if length ent_toks > 0
      then append_entity utmapping (join_space ent_toks) curr_ent entities
      else Inr entities)"
| "scan_entities utmapping curr_ent ent_toks entities ((tok, tag) # lst) =
     (if startswith ''B-'' tag then
        (if length ent_toks > 0 then
           (case append_entity utmapping (join_space ent_toks) curr_ent entities of
              Inl e \<Rightarrow> Inl e
            | Inr entities' \<Rightarrow> scan_entities utmapping (drop 2 tag) [tok] entities' lst)
         else scan_entities utmapping (drop 2 tag) (ent_toks @ [tok]) entities lst)
      else if startswith ''I-'' tag then
        (if curr_ent = ''O'' then scan_entities utmapping curr_ent ent_toks entities lst
         else scan_entities utmapping curr_ent (ent_toks @ [tok]) entities lst)
      else if startswith ''L-'' tag then
        (if curr_ent = ''O'' then scan_entities utmapping curr_ent ent_toks entities lst
         else
           (case append_entity utmapping (join_space (ent_toks @ [tok])) curr_ent entities of
              Inl e \<Rightarrow> Inl e
            | Inr entities' \<Rightarrow> scan_entities utmapping curr_ent [] entities' lst))
      else if startswith ''U-'' tag then
        (case append_entity utmapping tok (drop 2 tag) entities of
           Inl e \<Rightarrow> Inl e
         | Inr entities' \<Rightarrow> scan_entities utmapping (drop 2 tag) [] entities' lst)
      else if startswith ''O'' tag then
        (if length ent_toks > 0 then
           (case append_entity utmapping (join_space ent_toks) curr_ent entities of
              Inl e \<Rightarrow> Inl e
            | Inr entities' \<Rightarrow> scan_entities utmapping ''O'' [] entities' lst)
         else scan_entities utmapping ''O'' [] entities lst)
      else scan_entities utmapping curr_ent ent_toks entities lst)"

definition find_entities ::
  "utmap \<Rightarrow> (string \<times> string) list \<Rightarrow> string list \<Rightarrow> error + entity list" where
  "find_entities utmapping tagged prediction =
     scan_entities utmapping ''O'' [] [] (zip (map fst tagged) prediction)"

section \<open>The uncertainty scorer\<close>




section \<open>The active-learning controller\<close>

text \<open>
  An example is the dictionary \<^verbatim>\<open>{'raw': ..., 'features': ...}\<close>; the key
  \<^verbatim>\<open>features\<close> is absent until the features are first computed. The pools are
  Python lists of references to such dictionaries, and \<^verbatim>\<open>self.current_example\<close> is
  one more reference to a pooled dictionary, so the examples live in a store and the
  pools hold addresses: an assignment to \<^verbatim>\<open>example['raw']\<close> is seen through every
  reference. The attributes \<^verbatim>\<open>current_example\<close> and \<^verbatim>\<open>current_example_index\<close> do
  not exist before the first selection (reading them raises \<^verbatim>\<open>AttributeError\<close>), and
  \<^verbatim>\<open>unlabelled\<close> is \<^verbatim>\<open>None\<close> when the tagger was built without a dataset.
\<close>

record example =
  raw :: "item list"
  features :: "features list option"

type_synonym addr = nat

typedecl crf

record base_tagger =
  store :: "addr \<Rightarrow> example"
  unlabelled :: "addr list option"
  labelled :: "addr list"
  model :: "crf option"
  current_example_index :: "int option"
  current_example :: "addr option"

text \<open>\<^verbatim>\<open>list.pop(i)\<close>: a negative index counts from the end; an index outside
  \<open>-len .. len - 1\<close> raises \<^verbatim>\<open>IndexError\<close>.\<close>

definition list_pop :: "'a list \<Rightarrow> int \<Rightarrow> error + 'a list" where
  "list_pop xs i =
     (let n = int (length xs); j = (if i < 0 then i + n else i) in
      if 0 \<le> j \<and> j < n then Inr (take (nat j) xs @ drop (Suc (nat j)) xs)
      else Inl IndexError)"

text \<open>
  \<^verbatim>\<open>BaseNerTagger.save_example\<close>. \<^verbatim>\<open>data\<close> is the list of \<^verbatim>\<open>(text, tag)\<close> pairs that
  the markup decoder returns. The method returns \<^verbatim>\<open>False\<close> on a length mismatch and
  falls off its end (returning \<^verbatim>\<open>None\<close>) otherwise; an exception leaves the
  assignments made before it in place, so the result is paired with the state.
\<close>

datatype retval = RFalse | RNone

definition retag :: "item list \<Rightarrow> (string \<times> string) list \<Rightarrow> item list" where
  "retag rw data =
     map (\<lambda>index. Tok3 (item_word (rw ! index)) (item_postag (rw ! index))
                        (snd (data ! index)))
         [0 ..< length data]"

definition save_example ::
  "(string \<times> string) list \<Rightarrow> base_tagger \<Rightarrow> (error + retval) \<times> base_tagger" where
  "save_example data self =
     (case current_example self of
        None \<Rightarrow> (Inl AttributeError, self)
      | Some a \<Rightarrow>
          if length data \<noteq> length (raw (store self a)) then (Inr RFalse, self)
          else
            let toret = retag (raw (store self a)) data;
                s1 = self\<lparr>store := (store self)(a := (store self a)\<lparr>raw := toret\<rparr>)\<rparr>
            in (case sent2features toret of
                  Inl e \<Rightarrow> (Inl e, s1)
                | Inr fs \<Rightarrow>
                    let s2 = s1\<lparr>store := (store s1)(a := (store s1 a)\<lparr>features := Some fs\<rparr>)\<rparr>;
                        s3 = s2\<lparr>labelled := labelled s2 @ [a]\<rparr>
                    in (case unlabelled s3 of
                          None \<Rightarrow> (Inl AttributeError, s3)
                        | Some us \<Rightarrow>
                            (case current_example_index s3 of
                               None \<Rightarrow> (Inl AttributeError, s3)
                             | Some i \<Rightarrow>
                                 (case list_pop us i of
                                    Inl e \<Rightarrow> (Inl e, s3)
                                  | Inr us' \<Rightarrow> (Inr RNone, s3\<lparr>unlabelled := Some us'\<rparr>))))))"

text \<open>
  The subsample of \<^verbatim>\<open>query_new_example\<close>. With one example in the pool it is
  \<^verbatim>\<open>[0]\<close>; otherwise it is \<^verbatim>\<open>np.random.randint(0, len(self.unlabelled) - 1, size=250)\<close>.
  The random draw is modelled by the lists it can return: \<^verbatim>\<open>randint(low, high, size)\<close>
  returns \<open>size\<close> integers, each at least \<open>low\<close> and strictly below \<open>high\<close>, and
  raises \<^verbatim>\<open>ValueError\<close> (returning nothing) unless \<open>low < high\<close>.
\<close>

definition randint_admits :: "int \<Rightarrow> int \<Rightarrow> nat \<Rightarrow> int list \<Rightarrow> bool" where
  "randint_admits low high sz xs =
     (low < high \<and> length xs = sz \<and> list_all (\<lambda>x. low \<le> x \<and> x < high) xs)"

definition query_sample_admits :: "nat \<Rightarrow> int list \<Rightarrow> bool" where
  "query_sample_admits n sample =
     (if n = 1 then sample = [0]
      else randint_admits 0 (int n - 1) 250 sample)"

section \<open>The tagging session\<close>

text \<open>
  \<^verbatim>\<open>list_of_colors\<close> is a string constant split at \<open>", "\<close>: twenty colours, the last
  one with the trailing blank of the constant.
\<close>

definition list_of_colors :: "string list" where
  "list_of_colors =
     [''#e6194B'', ''#3cb44b'', ''#ffe119'', ''#4363d8'', ''#f58231'', ''#911eb4'',
      ''#42d4f4'', ''#f032e6'', ''#bfef45'', ''#fabebe'', ''#469990'', ''#e6beff'',
      ''#9A6324'', ''#fffac8'', ''#800000'', ''#aaffc3'', ''#808000'', ''#ffd8b1'',
      ''#000075'', ''#a9a9a9 '']"

text \<open>
  \<^verbatim>\<open>NerTagger._render_app_template\<close>, the handler of the route \<open>/\<close>. It returns a
  string in both branches: the message, or the rendered page. Reading and rendering
  the Jinja template is outside the program and is the parameter \<open>template\<close>, applied
  to \<^verbatim>\<open>css_classes\<close>, \<^verbatim>\<open>id_color_map\<close> and \<^verbatim>\<open>tag_controls\<close>.
\<close>

definition css_classes_of :: "(string \<times> string) list \<Rightarrow> (string \<times> string) list" where
  "css_classes_of unique_tags_data =
     map (\<lambda>p. (fst (snd p), list_of_colors ! fst p)) (List.enumerate 0 unique_tags_data)"

definition render_app_template ::
  "((string \<times> string) list \<Rightarrow> (string \<times> string) list \<Rightarrow> (string \<times> string) list \<Rightarrow> string)
     \<Rightarrow> (string \<times> string) list \<Rightarrow> string" where
  "render_app_template template unique_tags_data =
     (if length unique_tags_data > length list_of_colors
      then ''Too many tags. Add more colors to list_of_colors''
      else template (css_classes_of unique_tags_data) (css_classes_of unique_tags_data)
             unique_tags_data)"

text \<open>
  \<^verbatim>\<open>BaseNerTagger.__init__\<close> and \<^verbatim>\<open>NerTagger.__init__\<close>. The tokenizer and
  part-of-speech tagger is the parameter \<open>pos_tagged\<close>. Example \<open>k\<close> of the dataset
  is stored at address \<open>k\<close>; \<^verbatim>\<open>NerTagger\<close> passes no labelled data, so the Labeled
  Pool starts empty. Creating the data directory touches only the file system. The
  constructors contain no check of the tag list and no \<^verbatim>\<open>raise\<close>: the result is
  always a session (\<open>Inr\<close>). The Flask application built by \<^verbatim>\<open>_get_app\<close> only
  registers the handlers and is not part of the record.
\<close>

definition BaseNerTagger_init ::
  "(string \<Rightarrow> (string \<times> string) list) \<Rightarrow> string list option \<Rightarrow> base_tagger" where
  "BaseNerTagger_init pos_tagged dataset =
     \<lparr>store = (\<lambda>k. case dataset of
                       None \<Rightarrow> \<lparr>raw = [], features = None\<rparr>
                     | Some texts \<Rightarrow>
                         if k < length texts
                         then \<lparr>raw = map (\<lambda>p. Tok2 (fst p) (snd p)) (pos_tagged (texts ! k)),
                               features = None\<rparr>
                         else \<lparr>raw = [], features = None\<rparr>),
      unlabelled = (case dataset of None \<Rightarrow> None | Some texts \<Rightarrow> Some [0 ..< length texts]),
      labelled = [],
      model = None,
      current_example_index = None,
      current_example = None\<rparr>"

record ner_tagger =
  unique_tags :: "(string \<times> string) list"
  ntagger :: base_tagger
  utmapping :: utmap

definition NerTagger_init ::
  "(string \<Rightarrow> (string \<times> string) list) \<Rightarrow> string list option \<Rightarrow> (string \<times> string) list
     \<Rightarrow> error + ner_tagger" where
  "NerTagger_init pos_tagged dataset tags =
     Inr \<lparr>unique_tags = tags,
          ntagger = BaseNerTagger_init pos_tagged dataset,
          utmapping = utmapping_of tags\<rparr>"

section \<open>The BILOU codec\<close>

text \<open>
  The markup is a flat sequence of \<open>span\<close> elements, one per token. An element has
  its text and up to three attributes, \<open>data-tag-id\<close>, \<open>data-tag\<close> and \<open>class\<close>.
  The encoder stores the identifier as a Python integer; what the decoder reads back
  from parsed markup is whatever the parser delivers for the attribute, so the type of
  the identifier is a parameter of the element type.

  Two steps of the codec belong to the BeautifulSoup library and are parameters of the
  model. \<open>soup_str\<close> stands for \<^verbatim>\<open>soup.extend(spans)\<close> followed by \<^verbatim>\<open>str(soup)\<close>: it
  prints the elements the encoder built. \<open>find_all_spans\<close> stands for
  \<^verbatim>\<open>BeautifulSoup(html, 'html.parser')\<close> followed by \<^verbatim>\<open>find_all('span')\<close>: it parses
  markup into its \<open>span\<close> elements in document order. The markup itself (a \<^verbatim>\<open>str\<close> in
  the program) has the open type \<open>'h\<close>. Nothing is assumed of either parameter in the
  definitions.
\<close>

record 'i span =
  span_text :: string
  data_tag_id :: "'i option"
  data_tag :: "string option"
  span_class :: "string option"

definition new_span :: "item \<Rightarrow> nat span" where
  "new_span it = \<lparr>span_text = item_word it, data_tag_id = None, data_tag = None,
                  span_class = None\<rparr>"

definition set_tag_attrs :: "nat \<Rightarrow> string \<Rightarrow> nat span \<Rightarrow> nat span" where
  "set_tag_attrs tagidcounter tag sp =
     sp\<lparr>data_tag_id := Some tagidcounter, data_tag := Some tag, span_class := Some tag\<rparr>"

definition cons_ok :: "'a \<Rightarrow> error + 'a list \<Rightarrow> error + 'a list" where
  "cons_ok x r = (case r of Inl e \<Rightarrow> Inl e | Inr xs \<Rightarrow> Inr (x # xs))"

text \<open>
  The second loop of \<^verbatim>\<open>_generate_html_from_example\<close>: it visits \<^verbatim>\<open>ex[i]\<close> and
  \<^verbatim>\<open>spans[i]\<close> for \<open>i\<close> from 0 up. \<^verbatim>\<open>ex[i][2]\<close> raises on a pair, \<^verbatim>\<open>tag[0]\<close> on
  an empty tag. A tag that starts with B or I takes the current identifier; one that
  starts with L or U takes it and then increments it; any other tag leaves the
  element plain.
\<close>

fun tag_spans :: "nat \<Rightarrow> item list \<Rightarrow> nat span list \<Rightarrow> error + nat span list" where
  "tag_spans tagidcounter [] spans = Inr spans"
| "tag_spans tagidcounter (it # ex) [] = Inl IndexError"
| "tag_spans tagidcounter (it # ex) (sp # spans) =
     (case item_label it of
        None \<Rightarrow> Inl IndexError
      | Some tag \<Rightarrow>
          (case tag of
             [] \<Rightarrow> Inl IndexError
           | c # cs \<Rightarrow>
               if c \<in> set ''BI'' then
                 cons_ok (set_tag_attrs tagidcounter (drop 2 tag) sp)
                   (tag_spans tagidcounter ex spans)
               else if c \<in> set ''LU'' then
                 cons_ok (set_tag_attrs tagidcounter (drop 2 tag) sp)
                   (tag_spans (tagidcounter + 1) ex spans)
               else cons_ok sp (tag_spans tagidcounter ex spans)))"

text \<open>
  \<^verbatim>\<open>_generate_html_from_example\<close> on a list of tokens (a dictionary argument is first
  replaced by its \<^verbatim>\<open>raw\<close> list). \<^verbatim>\<open>len(ex[0])\<close> raises on the empty list, before
  anything is printed. The result is the printed markup.
\<close>

definition generate_html_from_example ::
  "(nat span list \<Rightarrow> 'h) \<Rightarrow> item list \<Rightarrow> error + 'h" where
  "generate_html_from_example soup_str ex =
     (let spans = map new_span ex in
      case ex of
        [] \<Rightarrow> Inl IndexError
      | it0 # rest \<Rightarrow>
          if item_len it0 = 3 then
            (case tag_spans 0 ex spans of
               Inl e \<Rightarrow> Inl e
             | Inr spans' \<Rightarrow> Inr (soup_str spans'))
          else Inr (soup_str spans))"

text \<open>
  \<^verbatim>\<open>_get_bilou_tags_from_html\<close>. \<^verbatim>\<open>tag_items\<close> are the elements that have the attribute
  \<open>data-tag\<close>; building \<^verbatim>\<open>tag_ids\<close> raises \<^verbatim>\<open>KeyError\<close> when one of them has no
  \<open>data-tag-id\<close>. \<^verbatim>\<open>Counter\<close> gives 0 for an identifier it has not seen.
\<close>

definition is_a_tag :: "'i span \<Rightarrow> bool" where
  "is_a_tag sp = (data_tag sp \<noteq> None)"

definition tag_id_list :: "'i span list \<Rightarrow> 'i option list" where
  "tag_id_list items = map data_tag_id (filter is_a_tag items)"

definition counter :: "'i span list \<Rightarrow> 'i \<Rightarrow> nat" where
  "counter items tag_id = count_list (tag_id_list items) (Some tag_id)"

lemma counter_pos:
  assumes "index < length items" and "is_a_tag (items ! index)"
    and "data_tag_id (items ! index) = Some tag_id"
  shows "0 < counter items tag_id"
proof -
  have "items ! index \<in> set (filter is_a_tag items)"
    using assms(1,2) by simp
  then have "Some tag_id \<in> set (tag_id_list items)"
    using assms(3) by (force simp: tag_id_list_def)
  then show ?thesis
    using count_list_0_iff [of "tag_id_list items" "Some tag_id"]
    by (auto simp: counter_def)
qed

text \<open>
  The \<^verbatim>\<open>while\<close> loop. An element read beyond the end of \<^verbatim>\<open>items\<close> raises
  \<^verbatim>\<open>IndexError\<close>. The loop ends because the size of a group counts the element the
  loop stands on, so the index grows in every round.
\<close>

function decode_loop ::
  "'i span list \<Rightarrow> nat \<Rightarrow> (string \<times> string) list \<Rightarrow> error + (string \<times> string) list" where
  "decode_loop items index toret =
     (if index < length items then
        (let item = items ! index in
         if is_a_tag item then
           (case data_tag_id item of
              None \<Rightarrow> Inl KeyError
            | Some tag_id \<Rightarrow>
                (case data_tag item of
                   None \<Rightarrow> Inl KeyError
                 | Some tag \<Rightarrow>
                     let sz = counter items tag_id in
                     if sz = 1 then
                       decode_loop items (index + 1) (toret @ [(span_text item, ''U-'' @ tag)])
                     else if sz = 2 then
                       (if index + 1 < length items then
                          decode_loop items (index + 2)
                            (toret @ [(span_text item, ''B-'' @ tag),
                                      (span_text (items ! (index + 1)), ''L-'' @ tag)])
                        else Inl IndexError)
                     else
                       (if index + sz - 1 < length items then
                          decode_loop items (index + sz)
                            (toret @ [(span_text item, ''B-'' @ tag)]
                                   @ map (\<lambda>i. (span_text (items ! (index + i + 1)), ''I-'' @ tag))
                                       [0 ..< sz - 2]
                                   @ [(span_text (items ! (index + sz - 1)), ''L-'' @ tag)])
                        else Inl IndexError)))
         else decode_loop items (index + 1) (toret @ [(span_text item, ''O'')]))
      else Inr toret)"
  by pat_completeness auto
termination
proof (relation "measure (\<lambda>(items, index, toret). length items - index)")
  show "wf (measure (\<lambda>(items, index, toret). length items - index))" by simp
next
  fix items :: "'i span list" and index :: nat and toret :: "(string \<times> string) list"
    and item tag_id tag sz
  assume "index < length items" "item = items ! index" "is_a_tag item"
    "data_tag_id item = Some tag_id" "sz = counter items tag_id"
    "index + sz - 1 < length items"
  then have "0 < sz" using counter_pos by simp
  then show "((items, index + sz,
               toret @ [(span_text item, ''B-'' @ tag)]
                     @ map (\<lambda>i. (span_text (items ! (index + i + 1)), ''I-'' @ tag))
                         [0 ..< sz - 2]
                     @ [(span_text (items ! (index + sz - 1)), ''L-'' @ tag)]),
              items, index, toret)
             \<in> measure (\<lambda>(items, index, toret). length items - index)"
    using \<open>index < length items\<close> by simp
qed auto

declare decode_loop.simps [simp del]

definition get_bilou_tags_from_html ::
  "('h \<Rightarrow> 'i span list) \<Rightarrow> 'h \<Rightarrow> error + (string \<times> string) list" where
  "get_bilou_tags_from_html find_all_spans html =
     (let items = find_all_spans html in
      if None \<in> set (tag_id_list items) then Inl KeyError
      else decode_loop items 0 [])"

text \<open>
  A label sequence is a valid BILOU sequence when it reads as a run of groups: the
  outside marker \<open>O\<close>, a Unit \<open>U-t\<close>, or a Begin \<open>B-t\<close> followed by any number of
  \<open>I-t\<close> and closed by \<open>L-t\<close> for the same tag \<open>t\<close>. The first argument is the tag
  of the group that is open, if one is.
\<close>

fun bilou_ok :: "string option \<Rightarrow> string list \<Rightarrow> bool" where
  "bilou_ok None [] = True"
| "bilou_ok (Some t) [] = False"
| "bilou_ok None (l # ls) =
     (if l = ''O'' then bilou_ok None ls
      else if take 2 l = ''U-'' then bilou_ok None ls
      else if take 2 l = ''B-'' then bilou_ok (Some (drop 2 l)) ls
      else False)"
| "bilou_ok (Some t) (l # ls) =
     (if l = ''I-'' @ t then bilou_ok (Some t) ls
      else if l = ''L-'' @ t then bilou_ok None ls
      else False)"

definition valid_bilou :: "string list \<Rightarrow> bool" where
  "valid_bilou ls = bilou_ok None ls"

text \<open>
  For the proofs about the codec: a labelled token as a triple, the two shapes of
  element the encoder produces, and the markup of a labelled sequence written as a
  recursion on the sequence alone (\<open>c\<close> is the value of \<^verbatim>\<open>tagidcounter\<close>). That
  the encoder computes \<open>enc\<close> on labelled input is lemma \<open>tag_spans_enc\<close>.
\<close>

type_synonym triple = "string \<times> string \<times> string"

definition tok3 :: "triple \<Rightarrow> item" where
  "tok3 t = Tok3 (fst t) (fst (snd t)) (snd (snd t))"

definition tagged :: "nat \<Rightarrow> string \<Rightarrow> string \<Rightarrow> nat span" where
  "tagged c t w = \<lparr>span_text = w, data_tag_id = Some c, data_tag = Some t, span_class = Some t\<rparr>"

definition plain :: "string \<Rightarrow> nat span" where
  "plain w = \<lparr>span_text = w, data_tag_id = None, data_tag = None, span_class = None\<rparr>"

fun enc :: "nat \<Rightarrow> triple list \<Rightarrow> nat span list" where
  "enc c [] = []"
| "enc c (t # ex) =
     (let w = fst t; l = snd (snd t) in
      if hd l \<in> set ''BI'' then tagged c (drop 2 l) w # enc c ex
      else if hd l \<in> set ''LU'' then tagged c (drop 2 l) w # enc (c + 1) ex
      else plain w # enc c ex)"

text \<open>
  What it means for parsed markup to give back the elements that were printed: the
  element read has the text and the \<open>data-tag\<close> of the element written, and its
  identifier is the image under \<open>f\<close> of the identifier written (for instance the
  decimal string of the integer). The \<open>class\<close> attribute is not compared.
\<close>

definition read_back :: "(nat \<Rightarrow> 'i) \<Rightarrow> nat span \<Rightarrow> 'i span \<Rightarrow> bool" where
  "read_back f w r =
     (span_text r = span_text w \<and> data_tag r = data_tag w \<and>
      data_tag_id r = map_option f (data_tag_id w))"

text \<open>A tagger over the two texts \<open>one\<close> and \<open>two\<close>, one token each, with the
  second selected as the current example.\<close>

definition demo_tagger :: base_tagger where
  "demo_tagger =
     (BaseNerTagger_init (\<lambda>t. [(t, ''NN'')]) (Some [''one'', ''two'']))
       \<lparr>current_example_index := Some 1, current_example := Some 1\<rparr>"

section \<open>Evaluation rules\<close>

lemmas str_pred_defs =
  ascii_uppers_def ascii_lowers_def ascii_digits_def chr_isupper_def chr_islower_def
  chr_isdigit_def chr_isalpha_def chr_lower_def str_isdigit_def str_isalpha_def
  str_isupper_def str_islower_def str_lower_def str_istitle_def last_chars_def

section \<open>Claim C3: the classification table\<close>

text \<open>
  C3, as the code has it: the classifier maps \<open>123\<close> to DIGIT, \<open>ABC\<close> to ALPHA_UPPER,
  \<open>abc\<close> to ALPHA_LOWER, \<open>Abc\<close> to ALPHA, \<open>a1\<close> to ALPHA_NUM and the empty string to
  EMPTY. For \<open>a!1\<close> it returns ALPHA_NUM: only the two end characters are inspected,
  one a letter and one a digit, and the middle character plays no part.
\<close>

theorem C3_classification_table:
  "is_alpha_and_numeric ''123'' = ''DIGIT'' \<and>
   is_alpha_and_numeric ''ABC'' = ''ALPHA_UPPER'' \<and>
   is_alpha_and_numeric ''abc'' = ''ALPHA_LOWER'' \<and>
   is_alpha_and_numeric ''Abc'' = ''ALPHA'' \<and>
   is_alpha_and_numeric ''a1'' = ''ALPHA_NUM'' \<and>
   is_alpha_and_numeric [] = ''EMPTY'' \<and>
   is_alpha_and_numeric ''a!1'' = ''ALPHA_NUM''"
  by (simp add: is_alpha_and_numeric_def str_pred_defs)

text \<open>
  C3 as the specification states it fails at \<open>a!1\<close>: the result there is not the empty
  string.
\<close>

theorem C3_middle_char_counterexample:
  "is_alpha_and_numeric ''a!1'' \<noteq> ''''"
  by (simp add: is_alpha_and_numeric_def str_pred_defs)

section \<open>Claim C9: boundary and neighbour features\<close>

lemmas feature_defs =
  word2features_def neighbour_features_def dict_update_def is_alpha_and_numeric_def Let_def

text \<open>
  C9: for the sentence \<open>[("Dr", "NNP"), ("Smith", "NNP")]\<close> the features of index 0
  hold \<open>BOS = True\<close> and no key that begins with \<open>-1:\<close>; the features of index 1
  hold \<open>EOS = True\<close> and \<open>-1:word.lower()\<close> with the value \<open>dr\<close>.
\<close>

theorem C9_boundary_features:
  "(case word2features [Tok2 ''Dr'' ''NNP'', Tok2 ''Smith'' ''NNP''] 0 of
      Inl e \<Rightarrow> False
    | Inr f \<Rightarrow> map_of f ''BOS'' = Some (FBool True) \<and>
               filter (\<lambda>k. take 3 k = ''-1:'') (map fst f) = []) \<and>
   (case word2features [Tok2 ''Dr'' ''NNP'', Tok2 ''Smith'' ''NNP''] 1 of
      Inl e \<Rightarrow> False
    | Inr f \<Rightarrow> map_of f ''EOS'' = Some (FBool True) \<and>
               map_of f ''-1:word.lower()'' = Some (FStr ''dr''))"
  by (simp add: feature_defs str_pred_defs)

section \<open>Claims C8 and C4: the extraction scan\<close>

lemmas extraction_defs =
  find_entities_def append_entity_def startswith_def utmapping_of_def

text \<open>
  C8: over the tokens \<open>the John A Smith teaches CS101\<close> with the predicted tags
  \<open>O, B-PROF, I-PROF, L-PROF, O, U-CC\<close> and a vocabulary that maps PROF to
  Professor and CC to Course Code, the scan returns exactly the entity
  \<open>John A Smith\<close> (Professor) followed by the entity \<open>CS101\<close> (Course Code).
\<close>

theorem C8_extraction_example:
  "find_entities
     (utmapping_of [(''PROF'', ''Professor''), (''CC'', ''Course Code'')])
     [(''the'', ''DT''), (''John'', ''NNP''), (''A'', ''NNP''), (''Smith'', ''NNP''),
      (''teaches'', ''VBZ''), (''CS101'', ''NNP'')]
     [''O'', ''B-PROF'', ''I-PROF'', ''L-PROF'', ''O'', ''U-CC'']
   = Inr [\<lparr>e_value = ''John A Smith'', e_entity = ''Professor''\<rparr>,
          \<lparr>e_value = ''CS101'', e_entity = ''Course Code''\<rparr>]"
  by (simp add: extraction_defs)

text \<open>
  C4 says that a Unit tag met while the buffer is open flushes the buffer as an entity
  and then emits the Unit entity. The code does not: the \<open>U-\<close> branch empties
  \<^verbatim>\<open>ent_toks\<close> without the append that the \<open>B-\<close> and \<open>O\<close> branches make. On the tags
  \<open>B-PROF, U-CC\<close> over \<open>John CS101\<close> the pending token \<open>John\<close> is lost and only the
  Unit entity is returned.
\<close>

theorem C4_unit_drops_open_buffer:
  "find_entities
     (utmapping_of [(''PROF'', ''Professor''), (''CC'', ''Course Code'')])
     [(''John'', ''NNP''), (''CS101'', ''NNP'')]
     [''B-PROF'', ''U-CC'']
   = Inr [\<lparr>e_value = ''CS101'', e_entity = ''Course Code''\<rparr>]"
  by (simp add: extraction_defs)

section \<open>Claims C7 and C10: saving a correction\<close>

lemma collect_map_Inr:
  assumes "\<And>x. x \<in> set xs \<Longrightarrow> \<exists>y. f x = Inr y"
  shows "\<exists>ys. collect (map f xs) = Inr ys \<and> length ys = length xs"
  using assms
proof (induction xs)
  case Nil
  then show ?case by simp
next
  case (Cons x xs)
  from Cons.prems obtain y where y: "f x = Inr y" by auto
  from Cons obtain ys where "collect (map f xs) = Inr ys" "length ys = length xs"
    by auto
  with y show ?case by simp
qed

lemma word2features_in_range:
  "i < length sent \<Longrightarrow> \<exists>f. word2features sent i = Inr f"
  by (simp add: word2features_def Let_def)

lemma sent2features_total:
  "\<exists>fs. sent2features sent = Inr fs \<and> length fs = length sent"
proof -
  have "\<And>i. i \<in> set [0 ..< length sent] \<Longrightarrow> \<exists>f. word2features sent i = Inr f"
    by (simp add: word2features_in_range)
  from collect_map_Inr [of "[0 ..< length sent]" "word2features sent", OF this]
  show ?thesis by (simp add: sent2features_def)
qed

lemma list_pop_in_range:
  assumes "- int (length xs) \<le> i" and "i < int (length xs)"
  shows "\<exists>ys. list_pop xs i = Inr ys \<and> Suc (length ys) = length xs"
proof (cases "i < 0")
  case True
  with assms have "0 \<le> i + int (length xs)" "i + int (length xs) < int (length xs)"
    by auto
  then show ?thesis using True by (auto simp: list_pop_def Let_def)
next
  case False
  with assms show ?thesis by (auto simp: list_pop_def Let_def)
qed

text \<open>
  C7: a correction whose length differs from the number of tokens of the current
  example makes \<^verbatim>\<open>save_example\<close> return \<^verbatim>\<open>False\<close> and leaves the whole state as it was:
  the store of examples (tokens and features), both pools, the current index and the
  current example.
\<close>

theorem C7_length_mismatch_rejected:
  assumes "current_example self = Some a"
    and "length data \<noteq> length (raw (store self a))"
  shows "save_example data self = (Inr RFalse, self)"
  using assms by (simp add: save_example_def)

theorem C7_length_mismatch_witness:
  "save_example [(''one'', ''O''), (''more'', ''O'')] demo_tagger = (Inr RFalse, demo_tagger)"
  using C7_length_mismatch_rejected
          [of demo_tagger 1 "[(''one'', ''O''), (''more'', ''O'')]"]
  by (simp add: demo_tagger_def BaseNerTagger_init_def)

text \<open>
  C10: when the correction has the length of the current example and the current
  index is one that \<^verbatim>\<open>pop\<close> accepts for the Unlabeled Pool, \<^verbatim>\<open>save_example\<close> returns
  normally, the Labeled Pool is the old one with the current example appended, the
  Unlabeled Pool is the old one with the entry at the current index removed, and the
  two sizes add up to what they did before.
\<close>

theorem C10_accept_moves_one_example:
  assumes cur: "current_example self = Some a"
    and len: "length data = length (raw (store self a))"
    and pool: "unlabelled self = Some us"
    and idx: "current_example_index self = Some i"
    and lo: "- int (length us) \<le> i"
    and hi: "i < int (length us)"
  shows "\<exists>self' us'. save_example data self = (Inr RNone, self') \<and>
           labelled self' = labelled self @ [a] \<and>
           list_pop us i = Inr us' \<and>
           unlabelled self' = Some us' \<and>
           Suc (length us') = length us \<and>
           length (labelled self') + length us' = length (labelled self) + length us"
proof -
  obtain fs where fs: "sent2features (retag (raw (store self a)) data) = Inr fs"
    using sent2features_total by blast
  obtain us' where us': "list_pop us i = Inr us'" "Suc (length us') = length us"
    using list_pop_in_range [OF lo hi] by blast
  show ?thesis
    using cur len pool idx fs us' by (simp add: save_example_def Let_def)
qed

theorem C10_accept_witness:
  "fst (save_example [(''two'', ''U-CC'')] demo_tagger) = Inr RNone \<and>
   labelled (snd (save_example [(''two'', ''U-CC'')] demo_tagger)) = [1] \<and>
   unlabelled (snd (save_example [(''two'', ''U-CC'')] demo_tagger)) = Some [0]"
  using C10_accept_moves_one_example [of demo_tagger 1 "[(''two'', ''U-CC'')]" "[0, 1]" 1]
  by (auto simp: demo_tagger_def BaseNerTagger_init_def list_pop_def)

section \<open>Claim C2: the subsample of the query regime\<close>

text \<open>
  C2, as the code has it: for a pool with exactly one example the subsample is
  \<open>[0]\<close>; for a larger pool a subsample exists, and every subsample is a list of
  exactly 250 indices of the pool (drawn with repetition, whatever the size of the
  pool). A pool smaller than 250 is therefore never returned as a whole.
\<close>

theorem C2_query_sample:
  assumes "0 < n"
  shows "query_sample_admits n (if n = 1 then [0] else replicate 250 0) \<and>
         (\<forall>sample. query_sample_admits n sample \<longrightarrow>
            (if n = 1 then sample = [0]
             else length sample = 250 \<and> list_all (\<lambda>s. 0 \<le> s \<and> s < int n) sample))"
proof -
  have "query_sample_admits n (if n = 1 then [0] else replicate 250 0)"
    using assms by (auto simp: query_sample_admits_def randint_admits_def list_all_iff)
  moreover have "\<forall>sample. query_sample_admits n sample \<longrightarrow>
            (if n = 1 then sample = [0]
             else length sample = 250 \<and> list_all (\<lambda>s. 0 \<le> s \<and> s < int n) sample)"
    by (auto simp: query_sample_admits_def randint_admits_def list_all_iff)
  ultimately show ?thesis by blast
qed

theorem C2_query_sample_witness:
  "query_sample_admits 3 (replicate 250 0) \<and>
   length (replicate 250 (1::int)) = 250 \<and>
   list_all (\<lambda>s. 0 \<le> s \<and> s < 3) (replicate 250 (1::int))"
proof -
  have adm: "query_sample_admits 3 (replicate 250 1)"
    by (simp add: query_sample_admits_def randint_admits_def list_all_iff)
  have pos: "0 < (3::nat)" by simp
  from C2_query_sample [OF pos] adm show ?thesis by auto
qed

text \<open>C2 as stated fails for a pool of three examples: the whole pool \<open>[0, 1, 2]\<close>
  is not a subsample the code can draw.\<close>

theorem C2_whole_pool_counterexample:
  "\<not> query_sample_admits 3 [0, 1, 2]"
  by (simp add: query_sample_admits_def randint_admits_def)

text \<open>The upper bound of \<^verbatim>\<open>np.random.randint\<close> is exclusive, so with two or more
  examples in the pool the last index is in no subsample.\<close>

lemma query_sample_excludes_last:
  assumes "2 \<le> n" and "query_sample_admits n sample"
  shows "int n - 1 \<notin> set sample"
  using assms by (auto simp: query_sample_admits_def randint_admits_def list_all_iff)

section \<open>Claim C5: more tags than colours\<close>

text \<open>
  C5, as the code has it: constructing a session never fails, whatever the number of
  tags. With more tags than colours the session is built, and the overflow shows
  only when the page is rendered, as the returned string
  \<open>Too many tags. Add more colors to list_of_colors\<close>.
\<close>

theorem C5_overflow_reported_at_render:
  assumes "length tags > length list_of_colors"
  shows "(\<exists>s. NerTagger_init pos_tagged dataset tags = Inr s \<and> unique_tags s = tags) \<and>
         render_app_template template tags =
           ''Too many tags. Add more colors to list_of_colors''"
  using assms by (simp add: NerTagger_init_def render_app_template_def)

theorem C5_overflow_witness:
  "render_app_template (\<lambda>a b c. ''page'') (replicate 21 (''T'', ''Tag'')) =
     ''Too many tags. Add more colors to list_of_colors''"
  using C5_overflow_reported_at_render
          [of "replicate 21 (''T'', ''Tag'')" "\<lambda>t. []" "Some []" "\<lambda>a b c. ''page''"]
  by (simp add: list_of_colors_def)

text \<open>C5 as stated fails: with 21 tags and 20 colours the constructor returns a
  session, not an error.\<close>

theorem C5_construction_counterexample:
  "length (replicate 21 (''T'', ''Tag'')) > length list_of_colors \<and>
   \<not> isl (NerTagger_init (\<lambda>t. [(t, ''NN'')]) (Some [''text one''])
           (replicate 21 (''T'', ''Tag'')))"
  by (simp add: NerTagger_init_def list_of_colors_def)

section \<open>Claim C1: decoding the encoded markup\<close>

subsection \<open>The encoder in closed form\<close>

lemma item_label_tok3: "item_label (tok3 t) = Some (snd (snd t))"
  by (simp add: tok3_def)

lemma new_span_tok3: "new_span (tok3 t) = plain (fst t)"
  by (simp add: tok3_def new_span_def plain_def)

lemma set_tag_attrs_plain: "set_tag_attrs c tg (plain w) = tagged c tg w"
  by (simp add: set_tag_attrs_def plain_def tagged_def)

lemma tag_spans_enc:
  "list_all (\<lambda>t. snd (snd t) \<noteq> []) ex \<Longrightarrow>
   tag_spans c (map tok3 ex) (map new_span (map tok3 ex)) = Inr (enc c ex)"
proof (induction ex arbitrary: c)
  case Nil
  then show ?case by simp
next
  case (Cons t ex)
  then obtain ch cs where l: "snd (snd t) = ch # cs"
    by (cases "snd (snd t)") auto
  have ih: "\<And>c. tag_spans c (map tok3 ex) (map new_span (map tok3 ex)) = Inr (enc c ex)"
    using Cons by simp
  show ?case
    by (simp add: item_label_tok3 new_span_tok3 set_tag_attrs_plain l ih cons_ok_def Let_def
        del: map_map)
qed

lemma bilou_ok_nonempty:
  "bilou_ok st (map (\<lambda>t. snd (snd t)) ex) \<Longrightarrow> list_all (\<lambda>t. snd (snd t) \<noteq> []) ex"
proof (induction ex arbitrary: st)
  case Nil
  then show ?case by simp
next
  case (Cons t ex)
  show ?case
  proof (cases st)
    case None
    with Cons.prems have "snd (snd t) \<noteq> []" by (auto split: if_splits)
    moreover from Cons.prems None have "\<exists>st'. bilou_ok st' (map (\<lambda>t. snd (snd t)) ex)"
      by (auto split: if_splits)
    ultimately show ?thesis using Cons.IH by auto
  next
    case (Some u)
    with Cons.prems have "snd (snd t) \<noteq> []" by (auto split: if_splits)
    moreover from Cons.prems Some have "\<exists>st'. bilou_ok st' (map (\<lambda>t. snd (snd t)) ex)"
      by (auto split: if_splits)
    ultimately show ?thesis using Cons.IH by auto
  qed
qed


subsection \<open>Counting identifiers\<close>

lemma counter_append: "counter (xs @ ys) k = counter xs k + counter ys k"
  by (simp add: counter_def tag_id_list_def)

lemma counter_tagged: "counter (tagged c t w # xs) k = (if k = c then Suc (counter xs k) else counter xs k)"
  by (simp add: counter_def tag_id_list_def is_a_tag_def tagged_def)

lemma counter_plain: "counter (plain w # xs) k = counter xs k"
  by (simp add: counter_def tag_id_list_def is_a_tag_def plain_def)

lemma counter_Nil: "counter [] k = 0"
  by (simp add: counter_def tag_id_list_def)

lemma counter_absent:
  "(\<And>sp. sp \<in> set xs \<Longrightarrow> data_tag_id sp \<noteq> Some k) \<Longrightarrow> counter xs k = 0"
  by (induction xs) (auto simp: counter_def tag_id_list_def)

lemma enc_ids_from:
  "sp \<in> set (enc c ex) \<Longrightarrow> data_tag_id sp = Some k \<Longrightarrow> c \<le> k"
proof (induction ex arbitrary: c)
  case Nil
  then show ?case by simp
next
  case (Cons t ex)
  then show ?case
    by (fastforce simp: Let_def tagged_def plain_def split: if_splits)
qed

subsection \<open>Single rounds of the decoding loop\<close>

lemma decode_end: "decode_loop items (length items) toret = Inr toret"
  by (subst decode_loop.simps) simp

lemma decode_plain:
  assumes "index < length items" and "items ! index = plain w"
  shows "decode_loop items index toret = decode_loop items (Suc index) (toret @ [(w, ''O'')])"
  by (subst decode_loop.simps [of items index toret]) (simp add: assms is_a_tag_def plain_def Let_def)

lemma decode_unit:
  assumes "index < length items" and "items ! index = tagged c t w"
    and "counter items c = 1"
  shows "decode_loop items index toret =
         decode_loop items (Suc index) (toret @ [(w, ''U-'' @ t)])"
  by (subst decode_loop.simps [of items index toret]) (simp add: assms is_a_tag_def tagged_def Let_def)

lemma decode_group:
  assumes items: "items = pre @ tagged c t w # map (tagged c t) ws @ tagged c t w' # suf"
    and cnt: "counter items c = length ws + 2"
  shows "decode_loop items (length pre) toret =
         decode_loop items (length pre + length ws + 2)
           (toret @ (w, ''B-'' @ t) # map (\<lambda>v. (v, ''I-'' @ t)) ws @ [(w', ''L-'' @ t)])"
proof -
  let ?n = "length ws"
  have len: "length pre < length items" using items by simp
  have at0: "items ! length pre = tagged c t w" using items by simp
  have mid: "items ! (length pre + i + 1) = tagged c t (ws ! i)" if "i < ?n" for i
  proof -
    have "items ! (length pre + i + 1) = (tagged c t w # map (tagged c t) ws @ tagged c t w' # suf) ! (i + 1)"
      using items by (simp add: nth_append)
    also have "\<dots> = (map (tagged c t) ws @ tagged c t w' # suf) ! i" by simp
    also have "\<dots> = tagged c t (ws ! i)" using that by (simp add: nth_append)
    finally show ?thesis .
  qed
  have lst: "items ! (length pre + ?n + 1) = tagged c t w'"
  proof -
    have "items ! (length pre + ?n + 1) = (tagged c t w # map (tagged c t) ws @ tagged c t w' # suf) ! (?n + 1)"
      using items by (simp add: nth_append)
    also have "\<dots> = (map (tagged c t) ws @ tagged c t w' # suf) ! ?n" by simp
    also have "\<dots> = tagged c t w'" by (simp add: nth_append)
    finally show ?thesis .
  qed
  have inside: "map (\<lambda>i. (span_text (items ! (length pre + i + 1)), ''I-'' @ t)) [0 ..< ?n]
                = map (\<lambda>v. (v, ''I-'' @ t)) ws"
  proof (rule nth_equalityI)
    show "length (map (\<lambda>i. (span_text (items ! (length pre + i + 1)), ''I-'' @ t)) [0 ..< ?n])
          = length (map (\<lambda>v. (v, ''I-'' @ t)) ws)" by simp
  next
    fix i
    assume "i < length (map (\<lambda>i. (span_text (items ! (length pre + i + 1)), ''I-'' @ t)) [0 ..< ?n])"
    then have i: "i < ?n" by simp
    then show "map (\<lambda>i. (span_text (items ! (length pre + i + 1)), ''I-'' @ t)) [0 ..< ?n] ! i
               = map (\<lambda>v. (v, ''I-'' @ t)) ws ! i"
      using mid [OF i] by (simp add: tagged_def)
  qed
  have bound: "length pre + ?n + 1 < length items" using items by simp
  show ?thesis
  proof (cases "?n = 0")
    case True
    then have ws: "ws = []" by simp
    show ?thesis
      using len at0 lst cnt bound True
      by (subst decode_loop.simps [of items "length pre" toret])
        (simp add: is_a_tag_def tagged_def ws Let_def)
  next
    case False
    have tg: "is_a_tag (tagged c t w)" "data_tag_id (tagged c t w) = Some c"
      "data_tag (tagged c t w) = Some t" "span_text (tagged c t w) = w"
      "span_text (tagged c t w') = w'"
      by (simp_all add: is_a_tag_def tagged_def)
    from False have ne: "ws \<noteq> []" by simp
    show ?thesis
      using bound lst inside
      by (subst decode_loop.simps [of items "length pre" toret])
        (simp add: len at0 tg cnt ne Let_def)
  qed
qed


subsection \<open>Groups of a valid label sequence\<close>

lemma open_group_split:
  "bilou_ok (Some tg) (map (\<lambda>t. snd (snd t)) xs) \<Longrightarrow>
   \<exists>mids lst rest. xs = mids @ lst # rest \<and>
      (\<forall>m \<in> set mids. snd (snd m) = ''I-'' @ tg) \<and>
      snd (snd lst) = ''L-'' @ tg \<and>
      bilou_ok None (map (\<lambda>t. snd (snd t)) rest)"
proof (induction xs)
  case Nil
  then show ?case by simp
next
  case (Cons x xs)
  show ?case
  proof (cases "snd (snd x) = ''I-'' @ tg")
    case True
    with Cons.prems have "bilou_ok (Some tg) (map (\<lambda>t. snd (snd t)) xs)" by simp
    from Cons.IH [OF this] obtain mids lst rest where
      "xs = mids @ lst # rest" "\<forall>m \<in> set mids. snd (snd m) = ''I-'' @ tg"
      "snd (snd lst) = ''L-'' @ tg" "bilou_ok None (map (\<lambda>t. snd (snd t)) rest)"
      by blast
    with True have "x # xs = (x # mids) @ lst # rest \<and>
      (\<forall>m \<in> set (x # mids). snd (snd m) = ''I-'' @ tg) \<and>
      snd (snd lst) = ''L-'' @ tg \<and> bilou_ok None (map (\<lambda>t. snd (snd t)) rest)"
      by simp
    then show ?thesis by blast
  next
    case False
    with Cons.prems have "snd (snd x) = ''L-'' @ tg"
      and "bilou_ok None (map (\<lambda>t. snd (snd t)) xs)"
      by (simp_all split: if_splits)
    then have "x # xs = [] @ x # xs \<and>
      (\<forall>m \<in> set []. snd (snd m) = ''I-'' @ tg) \<and>
      snd (snd x) = ''L-'' @ tg \<and> bilou_ok None (map (\<lambda>t. snd (snd t)) xs)"
      by simp
    then show ?thesis by blast
  qed
qed

lemma enc_inside:
  "(\<And>m. m \<in> set mids \<Longrightarrow> snd (snd m) = ''I-'' @ tg) \<Longrightarrow>
   enc c (mids @ ys) = map (tagged c tg) (map fst mids) @ enc c ys"
  by (induction mids) (simp_all add: Let_def)

lemma enc_begin: "snd (snd t) = ''B-'' @ tg \<Longrightarrow> enc c (t # ex) = tagged c tg (fst t) # enc c ex"
  by (simp add: Let_def)

lemma enc_last: "snd (snd t) = ''L-'' @ tg \<Longrightarrow> enc c (t # ex) = tagged c tg (fst t) # enc (Suc c) ex"
  by (simp add: Let_def)

lemma enc_unit: "snd (snd t) = ''U-'' @ tg \<Longrightarrow> enc c (t # ex) = tagged c tg (fst t) # enc (Suc c) ex"
  by (simp add: Let_def)

lemma enc_outside: "snd (snd t) = ''O'' \<Longrightarrow> enc c (t # ex) = plain (fst t) # enc c ex"
  by (simp add: Let_def)

lemma take2_split: "take 2 l = [a, b] \<Longrightarrow> l = [a, b] @ drop 2 l"
  by (metis append_take_drop_id)

subsection \<open>The loop on encoded markup\<close>

text \<open>
  The loop stands at the start of the markup of \<open>rest\<close>; the elements before it carry
  identifiers below the next identifier \<open>c\<close>. It then appends exactly the tokens and
  labels of \<open>rest\<close>. The induction is on the length of \<open>rest\<close>, since one round of
  the loop consumes a whole group.
\<close>

lemma decode_enc:
  assumes "bilou_ok None (map (\<lambda>t. snd (snd t)) rest)"
    and "\<And>sp k. sp \<in> set pre \<Longrightarrow> data_tag_id sp = Some k \<Longrightarrow> k < c"
  shows "decode_loop (pre @ enc c rest) (length pre) toret =
         Inr (toret @ map (\<lambda>t. (fst t, snd (snd t))) rest)"
  using assms
proof (induction "length rest" arbitrary: rest pre c toret rule: less_induct)
  case less
  have pre0: "counter pre c = 0"
    using less.prems(2) by (intro counter_absent) fastforce
  have later0: "counter (enc (Suc c) ys) c = 0" for ys
    using enc_ids_from [of _ "Suc c" ys c] by (intro counter_absent) fastforce
  show ?case
  proof (cases rest)
    case Nil
    then show ?thesis by (simp add: decode_end)
  next
    case (Cons t rest')
    let ?l = "snd (snd t)"
    let ?w = "fst t"
    from less.prems(1) Cons have ok: "bilou_ok None (?l # map (\<lambda>t. snd (snd t)) rest')"
      by simp
    consider (O) "?l = ''O''"
      | (U) "?l \<noteq> ''O''" "take 2 ?l = ''U-''"
      | (B) "?l \<noteq> ''O''" "take 2 ?l \<noteq> ''U-''" "take 2 ?l = ''B-''"
      using ok by (auto split: if_splits)
    then show ?thesis
    proof cases
      case O
      let ?items = "pre @ enc c rest"
      have items: "?items = (pre @ [plain ?w]) @ enc c rest'"
        using Cons O by (simp add: enc_outside)
      have at: "?items ! length pre = plain ?w" "length pre < length ?items"
        using Cons O by (simp_all add: enc_outside)
      have ok': "bilou_ok None (map (\<lambda>t. snd (snd t)) rest')" using ok O by simp
      have below: "\<And>sp k. sp \<in> set (pre @ [plain ?w]) \<Longrightarrow> data_tag_id sp = Some k \<Longrightarrow> k < c"
        using less.prems(2) by (auto simp: plain_def)
      have "decode_loop ?items (length pre) toret =
            decode_loop ?items (Suc (length pre)) (toret @ [(?w, ''O'')])"
        by (rule decode_plain [OF at(2) at(1)])
      also have "\<dots> = decode_loop ((pre @ [plain ?w]) @ enc c rest') (length (pre @ [plain ?w]))
                         (toret @ [(?w, ''O'')])"
        using items by simp
      also have "\<dots> = Inr ((toret @ [(?w, ''O'')]) @ map (\<lambda>t. (fst t, snd (snd t))) rest')"
        using Cons by (intro less.hyps [OF _ ok' below]) simp_all
      finally show ?thesis using Cons O by simp
    next
      case U
      define tg where "tg = drop 2 ?l"
      have l: "?l = ''U-'' @ tg" using take2_split [OF U(2)] by (simp add: tg_def)
      let ?items = "pre @ enc c rest"
      have e: "enc c rest = tagged c tg ?w # enc (Suc c) rest'"
        using Cons l by (simp add: enc_unit)
      have items: "?items = (pre @ [tagged c tg ?w]) @ enc (Suc c) rest'"
        using e by simp
      have at: "length pre < length ?items" "?items ! length pre = tagged c tg ?w"
        using e by simp_all
      have cnt: "counter ?items c = 1"
        using pre0 later0 by (simp add: e counter_append counter_tagged)
      have ok': "bilou_ok None (map (\<lambda>t. snd (snd t)) rest')" using ok U by simp
      have below: "\<And>sp k. sp \<in> set (pre @ [tagged c tg ?w]) \<Longrightarrow> data_tag_id sp = Some k
                    \<Longrightarrow> k < Suc c"
        using less.prems(2) by (fastforce simp: tagged_def)
      have "decode_loop ?items (length pre) toret =
            decode_loop ?items (Suc (length pre)) (toret @ [(?w, ''U-'' @ tg)])"
        by (rule decode_unit [OF at cnt])
      also have "\<dots> = decode_loop ((pre @ [tagged c tg ?w]) @ enc (Suc c) rest')
                         (length (pre @ [tagged c tg ?w])) (toret @ [(?w, ''U-'' @ tg)])"
        using items by simp
      also have "\<dots> = Inr ((toret @ [(?w, ''U-'' @ tg)]) @ map (\<lambda>t. (fst t, snd (snd t))) rest')"
        using Cons by (intro less.hyps [OF _ ok' below]) simp_all
      finally show ?thesis using Cons l by simp
    next
      case B
      define tg where "tg = drop 2 ?l"
      have l: "?l = ''B-'' @ tg" using take2_split [OF B(3)] by (simp add: tg_def)
      have "bilou_ok (Some tg) (map (\<lambda>t. snd (snd t)) rest')"
        using ok B by (simp add: tg_def)
      from open_group_split [OF this] obtain mids lst rest'' where
        split: "rest' = mids @ lst # rest''"
        and mids: "\<forall>m \<in> set mids. snd (snd m) = ''I-'' @ tg"
        and lst: "snd (snd lst) = ''L-'' @ tg"
        and ok'': "bilou_ok None (map (\<lambda>t. snd (snd t)) rest'')"
        by blast
      let ?ws = "map fst mids"
      let ?chunk = "tagged c tg ?w # map (tagged c tg) ?ws @ [tagged c tg (fst lst)]"
      let ?items = "pre @ enc c rest"
      have e: "enc c rest = tagged c tg ?w # map (tagged c tg) ?ws @ tagged c tg (fst lst)
                 # enc (Suc c) rest''"
        using Cons split l lst mids by (simp add: enc_begin enc_inside enc_last)
      have items: "?items = pre @ tagged c tg ?w # map (tagged c tg) ?ws @ tagged c tg (fst lst)
                     # enc (Suc c) rest''"
        using e by simp
      have items': "?items = (pre @ ?chunk) @ enc (Suc c) rest''"
        using e by simp
      have cmid: "counter (map (tagged c tg \<circ> fst) vs) c = length vs"
        for vs :: "(string \<times> string \<times> string) list"
        by (induction vs) (simp_all add: counter_tagged counter_Nil)
      have cnt: "counter ?items c = length ?ws + 2"
        using pre0 later0 by (simp add: e counter_append counter_tagged cmid)
      have below: "\<And>sp k. sp \<in> set (pre @ ?chunk) \<Longrightarrow> data_tag_id sp = Some k \<Longrightarrow> k < Suc c"
        using less.prems(2) by (fastforce simp: tagged_def)
      have shorter: "length rest'' < length rest" using Cons split by simp
      let ?out = "toret @ (?w, ''B-'' @ tg) # map (\<lambda>v. (v, ''I-'' @ tg)) ?ws
                    @ [(fst lst, ''L-'' @ tg)]"
      have "decode_loop ?items (length pre) toret =
            decode_loop ?items (length pre + length ?ws + 2) ?out"
        by (rule decode_group [OF items cnt])
      also have "\<dots> = decode_loop ((pre @ ?chunk) @ enc (Suc c) rest'') (length (pre @ ?chunk)) ?out"
        using items' by simp
      also have "\<dots> = Inr (?out @ map (\<lambda>t. (fst t, snd (snd t))) rest'')"
        by (rule less.hyps [OF shorter ok'' below])
      finally show ?thesis using Cons split l lst mids by simp
    qed
  qed
qed


subsection \<open>Markup that is read back as it was written\<close>

text \<open>
  The decoding loop looks only at texts, at the presence and value of \<open>data-tag\<close>, and
  at which identifiers are equal. It therefore returns the same result on elements
  that are read back, under an injective reading of the identifiers, as on the
  elements that were written.
\<close>

lemma read_back_is_a_tag: "read_back f w r \<Longrightarrow> is_a_tag r = is_a_tag w"
  by (simp add: read_back_def is_a_tag_def)

lemma counter_read_back:
  assumes "inj f" and "list_all2 (read_back f) ws rs"
  shows "counter rs (f k) = counter ws k"
  using assms(2)
proof (induction rule: list_all2_induct)
  case Nil
  then show ?case by (simp add: counter_def tag_id_list_def)
next
  case (Cons w ws r rs)
  have "(map_option f x = Some (f k)) = (x = Some k)" for x
    using assms(1) by (cases x) (auto dest: injD)
  then show ?case
    using Cons by (auto simp: counter_def tag_id_list_def read_back_def is_a_tag_def)
qed

lemma tag_ids_read_back:
  assumes "list_all2 (read_back f) ws rs"
  shows "(None \<in> set (tag_id_list rs)) = (None \<in> set (tag_id_list ws))"
  using assms
proof (induction rule: list_all2_induct)
  case Nil
  then show ?case by (simp add: tag_id_list_def)
next
  case (Cons w ws r rs)
  then show ?case
    by (cases "data_tag_id w") (auto simp: tag_id_list_def read_back_def is_a_tag_def)
qed

lemma decode_loop_read_back:
  assumes inj: "inj f" and rel: "list_all2 (read_back f) ws rs"
  shows "decode_loop rs i toret = decode_loop ws i toret"
proof (induction "length ws - i" arbitrary: i toret rule: less_induct)
  case less
  have len: "length rs = length ws" using rel by (simp add: list_all2_lengthD)
  have nth: "read_back f (ws ! j) (rs ! j)" if "j < length ws" for j
    using rel that by (simp add: list_all2_nthD)
  have texts: "span_text (rs ! j) = span_text (ws ! j)" if "j < length ws" for j
    using nth [OF that] by (simp add: read_back_def)
  show ?case
  proof (cases "i < length ws")
    case False
    then show ?thesis
      by (subst decode_loop.simps [of rs i toret], subst decode_loop.simps [of ws i toret])
        (simp add: len)
  next
    case True
    note rb = nth [OF True]
    have tag_eq: "is_a_tag (rs ! i) = is_a_tag (ws ! i)" by (rule read_back_is_a_tag [OF rb])
    have step: "decode_loop rs j out = decode_loop ws j out" if "i < j" for j out
      using that True by (intro less.hyps) simp
    show ?thesis
    proof (cases "is_a_tag (ws ! i)")
      case False
      then show ?thesis
        using True tag_eq texts [OF True] step [of "i + 1"]
        by (subst decode_loop.simps [of rs i toret], subst decode_loop.simps [of ws i toret])
          (simp add: len Let_def)
    next
      case tagged: True
      then obtain t where t: "data_tag (ws ! i) = Some t" "data_tag (rs ! i) = Some t"
        using rb by (auto simp: is_a_tag_def read_back_def)
      show ?thesis
      proof (cases "data_tag_id (ws ! i)")
        case None
        then have "data_tag_id (rs ! i) = None" using rb by (simp add: read_back_def)
        with None show ?thesis
          using True tag_eq tagged
          by (subst decode_loop.simps [of rs i toret], subst decode_loop.simps [of ws i toret])
            (simp add: len Let_def)
      next
        case (Some k)
        then have idr: "data_tag_id (rs ! i) = Some (f k)" using rb by (simp add: read_back_def)
        have cnt: "counter rs (f k) = counter ws k" by (rule counter_read_back [OF inj rel])
        have pos: "0 < counter ws k" using counter_pos [OF True tagged Some] .
        let ?sz = "counter ws k"
        have mid: "span_text (rs ! Suc (i + x)) = span_text (ws ! Suc (i + x))"
          if "x < ?sz - 2" and "i + ?sz - Suc 0 < length ws" for x
          using that by (intro texts) linarith
        show ?thesis
          using True tag_eq tagged t Some idr cnt pos
            step [of "i + 1"] step [of "i + 2"] step [of "i + ?sz"]
          apply (subst decode_loop.simps [of rs i toret])
          apply (subst decode_loop.simps [of ws i toret])
          apply (simp add: len Let_def texts)
          apply (intro impI)
          apply (rule arg_cong [where f = "decode_loop ws (i + counter ws k)"])
          apply (simp add: mid)
          done
      qed
    qed
  qed
qed


subsection \<open>The round trip\<close>

lemma enc_tag_ids: "sp \<in> set (enc c ex) \<Longrightarrow> data_tag_id sp = None \<Longrightarrow> \<not> is_a_tag sp"
proof (induction ex arbitrary: c)
  case Nil
  then show ?case by simp
next
  case (Cons t ex)
  then show ?case
    by (fastforce simp: Let_def tagged_def plain_def is_a_tag_def split: if_splits)
qed

lemma item_len_tok3: "item_len (tok3 t) = 3"
  by (simp add: tok3_def)

lemma generate_html_enc:
  assumes "ex \<noteq> []" and "bilou_ok None (map (\<lambda>t. snd (snd t)) ex)"
  shows "generate_html_from_example soup_str (map tok3 ex) = Inr (soup_str (enc 0 ex))"
proof -
  from assms(1) obtain t ts where ex: "ex = t # ts" by (cases ex) auto
  have "tag_spans 0 (map tok3 ex) (map new_span (map tok3 ex)) = Inr (enc 0 ex)"
    by (rule tag_spans_enc [OF bilou_ok_nonempty [OF assms(2)]])
  then have "tag_spans 0 (tok3 t # map tok3 ts) (new_span (tok3 t) # map new_span (map tok3 ts))
             = Inr (enc 0 (t # ts))"
    by (simp add: ex del: map_map tag_spans.simps enc.simps)
  then show ?thesis
    by (simp add: generate_html_from_example_def ex item_len_tok3
        del: map_map tag_spans.simps enc.simps)
qed

text \<open>
  For a non-empty sequence with a valid BILOU label sequence, and a printer and parser
  that give every printed element back (with an injective reading of the
  identifiers), decoding the encoded markup returns each token with its label.
  Whether BeautifulSoup prints and parses that way is not decided by the sources.
\<close>

lemma roundtrip_given_lossless_markup:
  assumes "ex \<noteq> []" and "valid_bilou (map (\<lambda>t. snd (snd t)) ex)"
    and "inj f"
    and "\<And>spans. list_all2 (read_back f) spans (find_all_spans (soup_str spans))"
  shows "\<exists>html. generate_html_from_example soup_str (map tok3 ex) = Inr html \<and>
           get_bilou_tags_from_html find_all_spans html =
             Inr (map (\<lambda>t. (fst t, snd (snd t))) ex)"
proof -
  from assms(2) have ok: "bilou_ok None (map (\<lambda>t. snd (snd t)) ex)"
    by (simp add: valid_bilou_def)
  have gen: "generate_html_from_example soup_str (map tok3 ex) = Inr (soup_str (enc 0 ex))"
    by (rule generate_html_enc [OF assms(1) ok])
  let ?rs = "find_all_spans (soup_str (enc 0 ex))"
  have rel: "list_all2 (read_back f) (enc 0 ex) ?rs" by (rule assms(4))
  have ids: "None \<notin> set (tag_id_list (enc 0 ex))"
    using enc_tag_ids [of _ 0 ex] by (auto simp: tag_id_list_def)
  then have ids': "None \<notin> set (tag_id_list ?rs)"
    using tag_ids_read_back [OF rel] by simp
  have "decode_loop ([] @ enc 0 ex) (length ([] :: nat span list)) [] =
        Inr ([] @ map (\<lambda>t. (fst t, snd (snd t))) ex)"
    by (rule decode_enc [OF ok]) simp
  then have "decode_loop ?rs 0 [] = Inr (map (\<lambda>t. (fst t, snd (snd t))) ex)"
    using decode_loop_read_back [OF assms(3) rel, of 0 "[]"] by simp
  then have "get_bilou_tags_from_html find_all_spans (soup_str (enc 0 ex)) =
             Inr (map (\<lambda>t. (fst t, snd (snd t))) ex)"
    using ids' by (simp add: get_bilou_tags_from_html_def Let_def)
  with gen show ?thesis by blast
qed

text \<open>The assumption can be met: a printer and a parser that pass the elements on
  unchanged.\<close>

lemma roundtrip_example:
  "\<exists>html. generate_html_from_example (\<lambda>spans. spans)
            (map tok3 [(''the'', ''DT'', ''O''), (''John'', ''NNP'', ''B-PROF''),
                       (''A'', ''NNP'', ''I-PROF''), (''Smith'', ''NNP'', ''L-PROF''),
                       (''CS101'', ''NNP'', ''U-CC'')]) = Inr html \<and>
          get_bilou_tags_from_html (\<lambda>html. html) html =
            Inr [(''the'', ''O''), (''John'', ''B-PROF''), (''A'', ''I-PROF''),
                 (''Smith'', ''L-PROF''), (''CS101'', ''U-CC'')]"
proof -
  have rb: "list_all2 (read_back (\<lambda>n. n)) spans spans" for spans :: "nat span list"
    by (simp add: list_all2_same read_back_def option.map_ident)
  have "inj (\<lambda>n::nat. n)" by (simp add: inj_on_def)
  from roundtrip_given_lossless_markup
         [of "[(''the'', ''DT'', ''O''), (''John'', ''NNP'', ''B-PROF''),
               (''A'', ''NNP'', ''I-PROF''), (''Smith'', ''NNP'', ''L-PROF''),
               (''CS101'', ''NNP'', ''U-CC'')]" "\<lambda>n. n" "\<lambda>html. html" "\<lambda>spans. spans",
          OF _ _ this rb]
  show ?thesis by (simp add: valid_bilou_def)
qed

text \<open>
  C1 says that decoding the encoded markup reproduces the labels of every valid BILOU
  sequence. The empty sequence is a valid one, and on it the code does not reach the
  decoder: \<^verbatim>\<open>_generate_html_from_example\<close> evaluates \<^verbatim>\<open>len(ex[0])\<close> and raises
  \<^verbatim>\<open>IndexError\<close>, whatever the printer does.
\<close>

theorem C1_empty_sequence_raises:
  "valid_bilou (map (\<lambda>t. snd (snd t)) []) \<and>
   generate_html_from_example soup_str (map tok3 []) = Inl IndexError"
  by (simp add: valid_bilou_def generate_html_from_example_def)

section \<open>Claim C6: the uncertainty scorer\<close>




end
